theory Spec2Isabelle
  imports Complex_Main
begin

section \<open>The image wrapper of \<open>ol/Image.js\<close>\<close>

text \<open>
  A private name of the source ends in an underscore, which an identifier here cannot:
  the underscore is written as a prime (\<open>image'\<close> is the field \<^verbatim>\<open>image_\<close>).
  JavaScript numbers are kept abstract: the definitions work over any type \<open>'n\<close> with a
  zero, a subtraction and a division, and never rely on an arithmetic law. The concrete
  scenarios are evaluated over the reals, on inputs whose quotient is exact.
\<close>

subsection \<open>Data\<close>

text \<open>
  Modelled from the spec: \<open>ol/ImageState.js\<close> is not among the sources. The spec names the
  four lifecycle states Idle, Loading, Loaded and Error.
\<close>

datatype ImageState = IDLE | LOADING | LOADED | ERROR

text \<open>
  Modelled from the spec: \<open>ol/events/EventType.js\<close> is not among the sources. The wrapper
  listens for the raster's load-failure and load-success signals.
\<close>

datatype EventType = EventType_ERROR | EventType_LOAD

text \<open>
  A raster handle (\<open>HTMLCanvasElement|Image|HTMLVideoElement\<close>) is a reference; the elements
  themselves live in a store, so that replacing the handle with \<open>setImage\<close> while listeners
  are registered on the previous element keeps the aliasing of the source.
\<close>

type_synonym handle = nat

record 'n Raster =
  height :: 'n
  crossOrigin :: "string option"

text \<open>An extent is \<open>[minX, minY, maxX, maxY]\<close>.\<close>

type_synonym 'n Extent = "'n \<times> 'n \<times> 'n \<times> 'n"

text \<open>The two private methods that \<open>load\<close> binds as listeners.\<close>

datatype Listener = HandleImageError | HandleImageLoad

text \<open>
  Modelled from the spec: \<open>ol/events.js\<close> is not among the sources. A key identifies one
  registered one-shot listener: the event target, the event type and the bound method
  (the bound object is always the wrapper itself).
\<close>

record EventsKey =
  target :: handle
  evtype :: EventType
  listener :: Listener

text \<open>
  The observable effects of the wrapper on its collaborators, in the order they happen:
  a "changed" notification (with what its observers can read at that moment: the state and
  the listeners then registered), a listener registration, a call of \<open>unlistenByKey\<close>, and
  a call of the configured load function with the source locator.
\<close>

datatype Effect =
    Changed ImageState "EventsKey list"
  | Listened EventsKey
  | Unlistened EventsKey
  | LoadFunctionCalled nat string

text \<open>
  Modelled from the spec: \<open>ol/ImageBase.js\<close> is not among the sources. The base class holds
  the extent, the resolution (\<open>undefined\<close> is \<open>None\<close>), the pixel ratio and the state.
\<close>

record 'n ImageBase =
  extent :: "'n Extent"
  resolution :: "'n option"
  pixelRatio' :: 'n
  state :: ImageState

text \<open>
  The fields the constructor of \<open>ImageWrapper\<close> adds. \<open>imageListenerKeys'\<close> is \<open>null\<close>
  (\<open>None\<close>) or an array of keys. The load function is a callback supplied by the caller;
  it is identified by a number, and a call of it is an effect of the trace.
\<close>

record 'n ImageWrapper = "'n ImageBase" +
  src' :: string
  image' :: handle
  imageListenerKeys' :: "EventsKey list option"
  imageLoadFunction' :: nat

text \<open>
  A configuration: the wrapper object together with the part of its environment it acts
  on, namely the raster elements, the listeners registered on them, and the effects so far.
\<close>

record 'n Config = "'n ImageWrapper" +
  rasters :: "handle \<Rightarrow> 'n Raster"
  registry :: "EventsKey list"
  trace :: "Effect list"

text \<open>
  The exceptions: the TypeError of a property read on \<open>null\<close> or \<open>undefined\<close>, the
  AssertionError of the library, and an exception thrown by code of the caller.
\<close>

datatype error = TypeError | AssertionError | Thrown string

subsection \<open>Collaborators\<close>

text \<open>
  Modelled from the spec: \<open>getHeight\<close> of \<open>ol/extent.js\<close> is not among the sources; the
  height of an extent \<open>(minX, minY, maxX, maxY)\<close> is \<open>maxY - minY\<close>.
\<close>

fun getHeight :: "'n::minus Extent \<Rightarrow> 'n" where
  "getHeight (minX, minY, maxX, maxY) = maxY - minY"

text \<open>
  Modelled from the spec: \<open>changed\<close> of \<open>ol/ImageBase.js\<close> is not among the sources; it
  emits the "changed" notification to the observers of the wrapper.
\<close>

definition changed :: "'n Config \<Rightarrow> 'n Config" where
  "changed w = w\<lparr>trace := trace w @ [Changed (state w) (registry w)]\<rparr>"

text \<open>
  Modelled from the spec: \<open>listenOnce\<close> and \<open>unlistenByKey\<close> of \<open>ol/events.js\<close> are not
  among the sources. \<open>listenOnce\<close> registers a one-shot listener on the target and
  returns its key; \<open>unlistenByKey\<close> deregisters the listener of a key and does nothing for
  a key that is not registered.
\<close>

definition listenOnce ::
  "handle \<Rightarrow> EventType \<Rightarrow> Listener \<Rightarrow> 'n Config \<Rightarrow> EventsKey \<times> 'n Config" where
  "listenOnce t ty l w =
     (let k = \<lparr>target = t, evtype = ty, listener = l\<rparr>
      in (k, w\<lparr>registry := registry w @ [k], trace := trace w @ [Listened k]\<rparr>))"

definition unlistenByKey :: "EventsKey \<Rightarrow> 'n Config \<Rightarrow> 'n Config" where
  "unlistenByKey k w =
     w\<lparr>registry := removeAll k (registry w), trace := trace w @ [Unlistened k]\<rparr>"

text \<open>
  The call \<^verbatim>\<open>this.imageLoadFunction_(this, this.src_)\<close>, as far as the configuration goes:
  the call is recorded. The load function is asynchronous: what loading achieves arrives
  later as the load or error event of the raster. Whether the call itself returns or throws
  is in \<open>loadCall\<close> below.
\<close>

definition callImageLoadFunction :: "'n Config \<Rightarrow> 'n Config" where
  "callImageLoadFunction w =
     w\<lparr>trace := trace w @ [LoadFunctionCalled (imageLoadFunction' w) (src' w)]\<rparr>"

subsection \<open>The constructor and the methods\<close>

text \<open>
  \<open>new Image()\<close> is the element at handle 0; a new element has height 0 and no cross-origin
  policy.
\<close>

definition new_ImageWrapper ::
  "'n Extent \<Rightarrow> 'n option \<Rightarrow> 'n \<Rightarrow> string \<Rightarrow> string option \<Rightarrow> nat \<Rightarrow> ('n::zero) Config" where
  "new_ImageWrapper ext res pixelRatio src crossOrig imageLoadFunction =
     (let fresh = \<lparr>height = 0, crossOrigin = None\<rparr> in
      \<lparr>extent = ext, resolution = res, pixelRatio' = pixelRatio, state = IDLE,
       src' = src, image' = 0, imageListenerKeys' = None,
       imageLoadFunction' = imageLoadFunction,
       rasters = (\<lambda>_. fresh)
         (0 := (case crossOrig of None \<Rightarrow> fresh | Some c \<Rightarrow> fresh\<lparr>crossOrigin := Some c\<rparr>)),
       registry = [], trace = []\<rparr>)"

definition getImage :: "'n Config \<Rightarrow> handle" where
  "getImage w = image' w"

definition setImage :: "handle \<Rightarrow> 'n Config \<Rightarrow> 'n Config" where
  "setImage img w = w\<lparr>image' := img\<rparr>"

text \<open>\<^verbatim>\<open>this.imageListenerKeys_.forEach(...)\<close> throws a TypeError on \<open>null\<close>.\<close>

definition unlistenImage' :: "'n Config \<Rightarrow> error + 'n Config" where
  "unlistenImage' w =
     (case imageListenerKeys' w of
        None \<Rightarrow> Inl TypeError
      | Some keys \<Rightarrow> Inr ((fold unlistenByKey keys w)\<lparr>imageListenerKeys' := None\<rparr>))"

definition handleImageError' :: "'n Config \<Rightarrow> error + 'n Config" where
  "handleImageError' w =
     (case unlistenImage' (w\<lparr>state := ERROR\<rparr>) of
        Inl e \<Rightarrow> Inl e
      | Inr w' \<Rightarrow> Inr (changed w'))"

definition handleImageLoad' :: "('n::{minus,inverse}) Config \<Rightarrow> error + 'n Config" where
  "handleImageLoad' w =
     (let w1 = (if resolution w = None
                then w\<lparr>resolution := Some (getHeight (extent w) / height (rasters w (image' w)))\<rparr>
                else w)
      in case unlistenImage' (w1\<lparr>state := LOADED\<rparr>) of
           Inl e \<Rightarrow> Inl e
         | Inr w' \<Rightarrow> Inr (changed w'))"

definition load :: "'n Config \<Rightarrow> 'n Config" where
  "load w =
     (if state w = IDLE \<or> state w = ERROR then
        (let w1 = changed (w\<lparr>state := LOADING\<rparr>);
             (k1, w2) = listenOnce (image' w1) EventType_ERROR HandleImageError w1;
             (k2, w3) = listenOnce (image' w2) EventType_LOAD HandleImageLoad w2
         in callImageLoadFunction (w3\<lparr>imageListenerKeys' := Some [k1, k2]\<rparr>))
      else w)"

text \<open>
  \<open>load()\<close> as its caller sees it. The load function is code of the caller: for a load
  function (by its number) and a source locator, \<open>env\<close> gives \<open>None\<close> when the call
  returns and the exception when it throws. The call is the last statement of \<open>load()\<close> and
  stands in no \<open>try\<close> block, so an exception of the load function reaches the caller of
  \<open>load()\<close>, and the wrapper is left as \<open>load\<close> leaves it. \<open>Inr\<close> is a normal return with the
  configuration; \<open>Inl\<close> is the exception with the configuration at the throw.
\<close>

type_synonym LoadFunctions = "nat \<Rightarrow> string \<Rightarrow> error option"

definition loadCall :: "LoadFunctions \<Rightarrow> 'n Config \<Rightarrow> (error \<times> 'n Config) + 'n Config" where
  "loadCall env w =
     (if state w = IDLE \<or> state w = ERROR then
        (case env (imageLoadFunction' w) (src' w) of
           None \<Rightarrow> Inr (load w)
         | Some e \<Rightarrow> Inl (e, load w))
      else Inr w)"

subsection \<open>The environment: raster events and runs\<close>

text \<open>
  A raster event of type \<open>ty\<close> on the element \<open>h\<close> is delivered to the listeners registered
  for it. A one-shot listener is deregistered and then called; a listener that an earlier
  one has deregistered meanwhile is not called.
\<close>

definition invoke :: "Listener \<Rightarrow> ('n::{minus,inverse}) Config \<Rightarrow> error + 'n Config" where
  "invoke l w = (case l of HandleImageError \<Rightarrow> handleImageError' w
                         | HandleImageLoad \<Rightarrow> handleImageLoad' w)"

fun deliver :: "EventsKey list \<Rightarrow> ('n::{minus,inverse}) Config \<Rightarrow> error + 'n Config" where
  "deliver [] w = Inr w"
| "deliver (k # ks) w =
     (if k \<in> set (registry w) then
        (case invoke (listener k) (w\<lparr>registry := removeAll k (registry w)\<rparr>) of
           Inl e \<Rightarrow> Inl e
         | Inr w' \<Rightarrow> deliver ks w')
      else deliver ks w)"

definition fire :: "handle \<Rightarrow> EventType \<Rightarrow> ('n::{minus,inverse}) Config \<Rightarrow> error + 'n Config" where
  "fire h ty w = deliver (filter (\<lambda>k. target k = h \<and> evtype k = ty) (registry w)) w"

text \<open>
  What can happen to a wrapper: a call of \<open>load()\<close>, a call of \<open>setImage(h)\<close>, the element
  \<open>h\<close> completing with pixel height \<open>p\<close> (its load event), and the element \<open>h\<close> failing (its
  error event). A step gives the configuration that the call or the event leaves; for
  \<open>load()\<close> that is \<open>load w\<close> whether the load function returns or throws, so a run goes on
  after a \<open>load()\<close> whose load function threw, and only a completion handler can end a
  run with an exception.
\<close>

datatype 'n Action = Load | SetImage handle | RasterLoad handle 'n | RasterError handle

fun step :: "('n::{minus,inverse}) Config \<Rightarrow> 'n Action \<Rightarrow> error + 'n Config" where
  "step w Load = Inr (load w)"
| "step w (SetImage h) = Inr (setImage h w)"
| "step w (RasterLoad h p) =
     fire h EventType_LOAD (w\<lparr>rasters := (rasters w)(h := (rasters w h)\<lparr>height := p\<rparr>)\<rparr>)"
| "step w (RasterError h) = fire h EventType_ERROR w"

text \<open>\<open>run\<close> gives the final configuration, \<open>exec\<close> every configuration on the way.\<close>

fun run :: "('n::{minus,inverse}) Config \<Rightarrow> 'n Action list \<Rightarrow> error + 'n Config" where
  "run w [] = Inr w"
| "run w (a # as) = (case step w a of Inl e \<Rightarrow> Inl e | Inr w' \<Rightarrow> run w' as)"

fun exec :: "('n::{minus,inverse}) Config \<Rightarrow> 'n Action list \<Rightarrow> error + 'n Config list" where
  "exec w [] = Inr [w]"
| "exec w (a # as) =
     (case step w a of
        Inl e \<Rightarrow> Inl e
      | Inr w' \<Rightarrow> (case exec w' as of Inl e \<Rightarrow> Inl e | Inr ws \<Rightarrow> Inr (w # ws)))"

text \<open>The number of calls of the load function so far.\<close>

fun isLoadFunctionCall :: "Effect \<Rightarrow> bool" where
  "isLoadFunctionCall (LoadFunctionCalled f s) = True"
| "isLoadFunctionCall _ = False"

definition invocations :: "'n Config \<Rightarrow> nat" where
  "invocations w = length (filter isLoadFunctionCall (trace w))"

text \<open>
  The consecutive pairs of a list: the steps of a run, or the state transitions along it.
\<close>

fun transitions :: "'a list \<Rightarrow> ('a \<times> 'a) list" where
  "transitions (x # y # ys) = (x, y) # transitions (y # ys)"
| "transitions _ = []"

text \<open>A transition that starts a load attempt, and one that completes it.\<close>

fun startsLoading :: "ImageState \<times> ImageState \<Rightarrow> bool" where
  "startsLoading (a, b) = ((a = IDLE \<or> a = ERROR) \<and> b = LOADING)"

fun completes :: "ImageState \<times> ImageState \<Rightarrow> bool" where
  "completes (a, b) = (a = LOADING \<and> (b = LOADED \<or> b = ERROR))"

text \<open>The two keys that \<open>load\<close> creates on the element \<open>t\<close>.\<close>

definition errorKey :: "handle \<Rightarrow> EventsKey" where
  "errorKey t = \<lparr>target = t, evtype = EventType_ERROR, listener = HandleImageError\<rparr>"

definition loadKey :: "handle \<Rightarrow> EventsKey" where
  "loadKey t = \<lparr>target = t, evtype = EventType_LOAD, listener = HandleImageLoad\<rparr>"

text \<open>
  The invariant of the reachable configurations: without a key list the wrapper is not
  loading and nothing is registered; with one, the wrapper is loading and exactly the two
  keys of the list are registered, on one element.
\<close>

definition consistent :: "'n Config \<Rightarrow> bool" where
  "consistent w =
     (case imageListenerKeys' w of
        None \<Rightarrow> state w \<noteq> LOADING \<and> registry w = []
      | Some ks \<Rightarrow> state w = LOADING \<and> registry w = ks \<and>
          ks = [errorKey (target (hd ks)), loadKey (target (hd ks))])"

text \<open>
  What one step may do: leave the state and the trace alone, start a load attempt with one
  call of the load function, or complete a load attempt with none.
\<close>

definition lawful :: "'n Config \<times> 'n Config \<Rightarrow> bool" where
  "lawful p = (case p of (w, w') \<Rightarrow>
      ((state w' = state w \<and> trace w' = trace w) \<or>
       (startsLoading (state w, state w') \<and> invocations w' = Suc (invocations w)) \<or>
       (completes (state w, state w') \<and> invocations w' = invocations w)))"

text \<open>
  The wrapper of the scenarios: resolution unset, an extent of height 100, no cross-origin
  policy.
\<close>

definition exampleWrapper :: "real Config" where
  "exampleWrapper = new_ImageWrapper (0, 0, 200, 100) None 1 ''tile.png'' None 0"

text \<open>Load functions that all return, and load functions that all throw.\<close>

definition returningLoadFunctions :: LoadFunctions where
  "returningLoadFunctions f src = None"

definition throwingLoadFunctions :: LoadFunctions where
  "throwingLoadFunctions f src = Some (Thrown ''load function failed'')"

section \<open>The style binding of \<open>style.components_old.ts\<close>\<close>

subsection \<open>Data\<close>

text \<open>
  The inputs of \<open>aol-style-icon\<close>, which are also the options of \<open>style.Icon\<close>; an input
  that is not bound is \<open>undefined\<close> (\<open>None\<close>). The inputs \<open>size\<close> and \<open>crossOrigin\<close> are
  written \<open>iconSize\<close> and \<open>iconCrossOrigin\<close>, and \<open>src\<close> is written \<open>iconSrc\<close>.
\<close>

record 'n IconOptions =
  anchor :: "('n \<times> 'n) option"
  anchorXUnits :: "string option"
  anchorYUnits :: "string option"
  anchorOrigin :: "string option"
  color :: "('n \<times> 'n \<times> 'n \<times> 'n) option"
  iconCrossOrigin :: "string option"
  img :: "string option"
  offset :: "('n \<times> 'n) option"
  offsetOrigin :: "string option"
  opacity :: "'n option"
  scale :: "'n option"
  snapToPixel :: "bool option"
  rotateWithView :: "bool option"
  rotation :: "'n option"
  iconSize :: "('n \<times> 'n) option"
  imgSize :: "('n \<times> 'n) option"
  iconSrc :: "string option"

text \<open>
  An event emitter holds its observers. The only observer of this file is the arrow
  function of \<open>ngAfterContentInit\<close>, which calls \<open>update\<close>.
\<close>

datatype Observer = CallUpdate

record 'n StyleIconDirective = "'n IconOptions" +
  onChanged :: "Observer list"

datatype 'n Icon = Icon "'n IconOptions"

datatype 'n Style = Style "'n Icon"

text \<open>
  Modelled from the spec: \<open>feature.component\<close> is not among the sources; the host feature
  holds the style that was pushed to it last.
\<close>

record 'n FeatureComponent =
  featureStyle :: "'n Style option"

text \<open>
  What the component does to its collaborators, in order: a line on the console, a style
  pushed to the host, a subscription to the child's emitter.
\<close>

datatype 'n StyleEffect = ConsoleLog string | SetStyle "'n Style" | Subscribed Observer

text \<open>
  The component with its host and its content child (\<open>None\<close> when the content has no
  \<open>aol-style-icon\<close>). The field \<open>host\<close> is \<^verbatim>\<open>_host_\<close> and \<open>childSubscription\<close> is
  \<^verbatim>\<open>childSubscription$\<close>.
\<close>

record 'n StyleComponent =
  host :: "'n FeatureComponent"
  childSubscription :: "Observer option"
  iconStyleDirective :: "'n StyleIconDirective option"
  effects :: "'n StyleEffect list"

subsection \<open>Methods\<close>

text \<open>
  Modelled from the spec: \<open>setStyle\<close> of the host feature is not among the sources; the
  component pushes the style to its single owning host.
\<close>

definition setStyle :: "'n Style \<Rightarrow> 'n StyleComponent \<Rightarrow> 'n StyleComponent" where
  "setStyle st c =
     c\<lparr>host := (host c)\<lparr>featureStyle := Some st\<rparr>, effects := effects c @ [SetStyle st]\<rparr>"

definition new_StyleComponent ::
  "'n FeatureComponent \<Rightarrow> 'n StyleIconDirective option \<Rightarrow> 'n StyleComponent" where
  "new_StyleComponent feature child =
     \<lparr>host = feature, childSubscription = None, iconStyleDirective = child,
      effects = [ConsoleLog ''instancing aol-style'']\<rparr>"

text \<open>The options that \<open>update\<close> passes to \<open>new style.Icon\<close>: the inputs of the directive.\<close>

definition iconOptions :: "('n, 'z) StyleIconDirective_scheme \<Rightarrow> 'n IconOptions" where
  "iconOptions d =
       \<lparr>anchor = anchor d,
        anchorXUnits = anchorXUnits d,
        anchorYUnits = anchorYUnits d,
        anchorOrigin = anchorOrigin d,
        color = color d,
        iconCrossOrigin = iconCrossOrigin d,
        img = img d,
        offset = offset d,
        offsetOrigin = offsetOrigin d,
        opacity = opacity d,
        scale = scale d,
        snapToPixel = snapToPixel d,
        rotateWithView = rotateWithView d,
        rotation = rotation d,
        iconSize = iconSize d,
        imgSize = imgSize d,
        iconSrc = iconSrc d\<rparr>"

text \<open>
  \<open>ol/style/Icon.js\<close> is not among the sources, so the constructor \<open>new style.Icon\<close> is a
  parameter of \<open>update\<close>: given the options it returns the icon or throws. Reading an
  input of a missing directive throws a TypeError. Both happen while the argument of
  \<open>setStyle\<close> is built, so before \<open>setStyle\<close> is called.
\<close>

type_synonym 'n IconConstructor = "'n IconOptions \<Rightarrow> error + 'n Icon"

definition update :: "'n IconConstructor \<Rightarrow> 'n StyleComponent \<Rightarrow> error + 'n StyleComponent" where
  "update newIcon c =
     (case iconStyleDirective c of
        None \<Rightarrow> Inl TypeError
      | Some d \<Rightarrow>
          (case newIcon (iconOptions d) of
             Inl e \<Rightarrow> Inl e
           | Inr icon \<Rightarrow> Inr (setStyle (Style icon) c)))"

definition subscribe :: "Observer \<Rightarrow> 'n StyleComponent \<Rightarrow> error + 'n StyleComponent" where
  "subscribe ob c =
     (case iconStyleDirective c of
        None \<Rightarrow> Inl TypeError
      | Some d \<Rightarrow>
          Inr (c\<lparr>iconStyleDirective := Some (d\<lparr>onChanged := onChanged d @ [ob]\<rparr>),
                 childSubscription := Some ob,
                 effects := effects c @ [Subscribed ob]\<rparr>))"

definition ngAfterContentInit ::
  "'n IconConstructor \<Rightarrow> 'n StyleComponent \<Rightarrow> error + 'n StyleComponent" where
  "ngAfterContentInit newIcon c =
     (case update newIcon c of
        Inl e \<Rightarrow> Inl e
      | Inr c' \<Rightarrow> subscribe CallUpdate c')"

text \<open>
  \<open>ngOnChanges\<close> of the directive emits on \<open>onChanged\<close>: every observer is called in turn
  (the emitted value, the input \<open>src\<close>, is ignored by the observer). Without a directive
  there is no such call to make.
\<close>

fun notify ::
  "'n IconConstructor \<Rightarrow> Observer list \<Rightarrow> 'n StyleComponent \<Rightarrow> error + 'n StyleComponent" where
  "notify newIcon [] c = Inr c"
| "notify newIcon (CallUpdate # obs) c =
     (case update newIcon c of Inl e \<Rightarrow> Inl e | Inr c' \<Rightarrow> notify newIcon obs c')"

definition ngOnChanges ::
  "'n IconConstructor \<Rightarrow> 'n StyleComponent \<Rightarrow> error + 'n StyleComponent" where
  "ngOnChanges newIcon c =
     (case iconStyleDirective c of
        None \<Rightarrow> Inr c
      | Some d \<Rightarrow> notify newIcon (onChanged d) c)"

text \<open>The number of styles the host has received.\<close>

fun isSetStyle :: "'n StyleEffect \<Rightarrow> bool" where
  "isSetStyle (SetStyle st) = True"
| "isSetStyle _ = False"

definition stylesReceived :: "'n StyleComponent \<Rightarrow> nat" where
  "stylesReceived c = length (filter isSetStyle (effects c))"

text \<open>
  A directive with the single input \<open>src\<close> bound and no observer yet, and a component
  constructed for it on a host without a style.
\<close>

definition exampleDirective :: "real StyleIconDirective" where
  "exampleDirective =
     \<lparr>anchor = None, anchorXUnits = None, anchorYUnits = None, anchorOrigin = None,
      color = None, iconCrossOrigin = None, img = None, offset = None, offsetOrigin = None,
      opacity = None, scale = None, snapToPixel = None, rotateWithView = None,
      rotation = None, iconSize = None, imgSize = None, iconSrc = Some ''icon.png'',
      onChanged = []\<rparr>"

definition exampleComponent :: "real StyleComponent" where
  "exampleComponent = new_StyleComponent \<lparr>featureStyle = None\<rparr> (Some exampleDirective)"

text \<open>The same with no input bound at all.\<close>

definition unboundDirective :: "real StyleIconDirective" where
  "unboundDirective = exampleDirective\<lparr>iconSrc := None\<rparr>"

definition unboundComponent :: "real StyleComponent" where
  "unboundComponent = new_StyleComponent \<lparr>featureStyle = None\<rparr> (Some unboundDirective)"

text \<open>
  The constructor of the library as far as its assertions on the options go. An image is
  given when \<open>img\<close> is bound to a value that is not empty. The constructor throws an
  AssertionError when \<open>src\<close> is bound and an image is given, when an image is given and
  \<open>imgSize\<close> is not bound, and when no image is given and \<open>src\<close> is not bound or empty.
\<close>

definition olIcon :: "'n IconConstructor" where
  "olIcon opts =
     (let image = (case img opts of None \<Rightarrow> False | Some i \<Rightarrow> i \<noteq> [])
      in if iconSrc opts \<noteq> None \<and> image then Inl AssertionError
         else if image \<and> imgSize opts = None then Inl AssertionError
         else if \<not> image \<and> (iconSrc opts = None \<or> iconSrc opts = Some []) then Inl AssertionError
         else Inr (Icon opts))"

section \<open>Properties of the image wrapper\<close>

subsection \<open>Auxiliary facts\<close>

text \<open>The definitions of the collaborators and of the private methods, for evaluation.\<close>

lemmas prim_defs = changed_def listenOnce_def unlistenByKey_def callImageLoadFunction_def
  unlistenImage'_def handleImageError'_def handleImageLoad'_def invoke_def fire_def
  errorKey_def loadKey_def Let_def

text \<open>The invariant holds after construction and is kept by every method and event.\<close>

lemma consistent_new: "consistent (new_ImageWrapper e r p s c f)"
  by (simp add: consistent_def new_ImageWrapper_def Let_def)

lemma load_idle:
  assumes "state w = IDLE \<or> state w = ERROR"
  shows "state (load w) = LOADING"
    and "imageListenerKeys' (load w) = Some [errorKey (image' w), loadKey (image' w)]"
    and "registry (load w) = registry w @ [errorKey (image' w), loadKey (image' w)]"
    and "trace (load w) = trace w @ [Changed LOADING (registry w), Listened (errorKey (image' w)),
           Listened (loadKey (image' w)), LoadFunctionCalled (imageLoadFunction' w) (src' w)]"
    and "image' (load w) = image' w"
    and "resolution (load w) = resolution w"
    and "extent (load w) = extent w"
    and "rasters (load w) = rasters w"
  using assms by (auto simp: load_def prim_defs)

lemma load_noop: "state w = LOADING \<or> state w = LOADED \<Longrightarrow> load w = w"
  by (auto simp: load_def)

lemma consistent_load:
  assumes "consistent w"
  shows "consistent (load w)"
proof (cases "state w = IDLE \<or> state w = ERROR")
  case True
  moreover from True assms have "registry w = []"
    by (auto simp: consistent_def split: option.splits)
  ultimately show ?thesis
    by (simp add: consistent_def load_idle errorKey_def)
next
  case False
  then have "load w = w" by (simp add: load_def)
  with assms show ?thesis by simp
qed

lemma consistent_setImage: "consistent w \<Longrightarrow> consistent (setImage h w)"
  by (simp add: consistent_def setImage_def split: option.splits)

text \<open>What \<open>unlistenImage'\<close> does to a configuration with a key list.\<close>

lemma unlistenByKey_fields:
  "registry (unlistenByKey k w) = removeAll k (registry w)"
  "trace (unlistenByKey k w) = trace w @ [Unlistened k]"
  "state (unlistenByKey k w) = state w"
  "resolution (unlistenByKey k w) = resolution w"
  "imageListenerKeys' (unlistenByKey k w) = imageListenerKeys' w"
  by (simp_all add: unlistenByKey_def)

lemma registry_fold_unlisten:
  "registry (fold unlistenByKey ks w) = filter (\<lambda>k. k \<notin> set ks) (registry w)"
proof (induction ks arbitrary: w)
  case Nil
  show ?case by simp
next
  case (Cons k ks)
  have "filter (\<lambda>x. x \<notin> set ks) (removeAll k xs) =
        filter (\<lambda>x. x \<noteq> k \<and> x \<notin> set ks) xs" for xs
    by (induction xs) auto
  then show ?case by (simp add: Cons.IH unlistenByKey_fields)
qed

lemma trace_fold_unlisten:
  "trace (fold unlistenByKey ks w) = trace w @ map Unlistened ks"
  by (induction ks arbitrary: w) (simp_all add: unlistenByKey_fields)

lemma fields_fold_unlisten:
  "state (fold unlistenByKey ks w) = state w"
  "resolution (fold unlistenByKey ks w) = resolution w"
  "imageListenerKeys' (fold unlistenByKey ks w) = imageListenerKeys' w"
  by (induction ks arbitrary: w) (simp_all add: unlistenByKey_fields)

lemma unlistenImage_ok:
  assumes "imageListenerKeys' w = Some ks"
  shows "\<exists>w'. unlistenImage' w = Inr w' \<and> state w' = state w \<and> resolution w' = resolution w \<and>
           imageListenerKeys' w' = None \<and>
           registry w' = filter (\<lambda>k. k \<notin> set ks) (registry w) \<and>
           trace w' = trace w @ map Unlistened ks"
  using assms
  by (simp add: unlistenImage'_def registry_fold_unlisten trace_fold_unlisten fields_fold_unlisten)

lemma handleImageLoad_resolution:
  assumes "imageListenerKeys' w = Some ks"
  shows "\<exists>w'. handleImageLoad' w = Inr w' \<and> state w' = LOADED \<and>
           resolution w' = (case resolution w of
              None \<Rightarrow> Some (getHeight (extent w) / height (rasters w (image' w)))
            | Some r \<Rightarrow> Some r)"
proof -
  define w1 where "w1 = (if resolution w = None
      then w\<lparr>resolution := Some (getHeight (extent w) / height (rasters w (image' w)))\<rparr> else w)"
  have k1: "imageListenerKeys' (w1\<lparr>state := LOADED\<rparr>) = Some ks"
    using assms by (simp add: w1_def)
  have r1: "resolution (w1\<lparr>state := LOADED\<rparr>) = (case resolution w of
              None \<Rightarrow> Some (getHeight (extent w) / height (rasters w (image' w)))
            | Some r \<Rightarrow> Some r)"
    by (simp add: w1_def split: option.splits)
  from unlistenImage_ok[OF k1] obtain w2 where
    w2: "unlistenImage' (w1\<lparr>state := LOADED\<rparr>) = Inr w2" "state w2 = LOADED"
      "resolution w2 = resolution (w1\<lparr>state := LOADED\<rparr>)"
    by auto
  have "handleImageLoad' w = Inr (changed w2)"
    using w2(1) by (simp add: handleImageLoad'_def w1_def Let_def)
  then show ?thesis using w2 r1 by (simp add: changed_def)
qed

text \<open>
  A raster event in a consistent configuration: it never throws, and it either changes
  nothing or completes the load attempt.
\<close>

lemma fire_consistent:
  assumes "consistent w"
  shows "\<exists>w'. fire h ty w = Inr w' \<and> consistent w'"
proof (cases "imageListenerKeys' w")
  case None
  with assms show ?thesis by (simp add: consistent_def fire_def)
next
  case (Some ks)
  with assms obtain t where reg: "registry w = [errorKey t, loadKey t]" and ks: "ks = [errorKey t, loadKey t]"
    and st: "state w = LOADING"
    by (auto simp: consistent_def)
  show ?thesis
    using Some reg ks st
    by (cases ty) (auto simp: consistent_def prim_defs)
qed

lemma fire_step:
  assumes "consistent w"
  shows "\<exists>w'. fire h ty w = Inr w' \<and>
          (w' = w \<or>
           (state w = LOADING \<and> state w' = (case ty of EventType_ERROR \<Rightarrow> ERROR | EventType_LOAD \<Rightarrow> LOADED)
             \<and> invocations w' = invocations w))"
proof (cases "imageListenerKeys' w")
  case None
  with assms show ?thesis by (simp add: consistent_def fire_def)
next
  case (Some ks)
  with assms obtain t where reg: "registry w = [errorKey t, loadKey t]" and ks: "ks = [errorKey t, loadKey t]"
    and st: "state w = LOADING"
    by (auto simp: consistent_def)
  show ?thesis
    using Some reg ks st
    by (cases ty) (auto simp: invocations_def prim_defs)
qed

lemma fire_other:
  assumes "consistent w" "imageListenerKeys' w = Some ks" "h \<noteq> target (hd ks)"
  shows "fire h ty w = Inr w"
proof -
  from assms obtain t where "registry w = [errorKey t, loadKey t]" "ks = [errorKey t, loadKey t]"
    by (auto simp: consistent_def)
  with assms(3) show ?thesis by (simp add: fire_def errorKey_def loadKey_def)
qed

lemma fire_error:
  assumes "consistent w" "imageListenerKeys' w = Some ks"
  shows "fire (target (hd ks)) EventType_ERROR w =
     Inr (w\<lparr>state := ERROR, imageListenerKeys' := None, registry := [],
            trace := trace w @ [Unlistened (errorKey (target (hd ks))),
                                Unlistened (loadKey (target (hd ks))), Changed ERROR []]\<rparr>)"
proof -
  from assms obtain t where "registry w = [errorKey t, loadKey t]" "ks = [errorKey t, loadKey t]"
    by (auto simp: consistent_def)
  with assms(2) show ?thesis by (simp add: prim_defs)
qed

lemma fire_load:
  assumes "consistent w" "imageListenerKeys' w = Some ks"
  shows "\<exists>w'. fire (target (hd ks)) EventType_LOAD w = Inr w' \<and> state w' = LOADED"
proof -
  from assms obtain t where "registry w = [errorKey t, loadKey t]" "ks = [errorKey t, loadKey t]"
    by (auto simp: consistent_def)
  with assms(2) show ?thesis by (simp add: prim_defs)
qed

lemma fire_frame:
  assumes "consistent w"
  shows "\<exists>w'. fire h ty w = Inr w' \<and> extent w' = extent w \<and> image' w' = image' w \<and>
           rasters w' = rasters w \<and>
           (w' = w \<or>
            (ty = EventType_ERROR \<and> state w' = ERROR \<and> resolution w' = resolution w) \<or>
            (ty = EventType_LOAD \<and> state w' = LOADED \<and> state w = LOADING \<and>
             resolution w' = (case resolution w of
                None \<Rightarrow> Some (getHeight (extent w) / height (rasters w (image' w)))
              | Some r \<Rightarrow> Some r)))"
proof (cases "imageListenerKeys' w")
  case None
  with assms show ?thesis by (simp add: consistent_def fire_def)
next
  case (Some ks)
  with assms obtain t where reg: "registry w = [errorKey t, loadKey t]" and ks: "ks = [errorKey t, loadKey t]"
    and st: "state w = LOADING"
    by (auto simp: consistent_def)
  show ?thesis
    using Some reg ks st
    by (cases ty) (auto simp: prim_defs split: option.splits)
qed

text \<open>One step, and then whole runs, from a consistent configuration.\<close>

lemma invocations_load:
  "invocations (load w) = (if state w = IDLE \<or> state w = ERROR then Suc (invocations w) else invocations w)"
proof (cases "state w = IDLE \<or> state w = ERROR")
  case True
  then show ?thesis by (simp add: invocations_def load_idle)
next
  case False
  then show ?thesis by (simp add: load_def)
qed

lemma step_consistent:
  assumes "consistent w"
  shows "\<exists>w'. step w a = Inr w' \<and> consistent w' \<and>
      ((state w' = state w \<and> trace w' = trace w) \<or>
       (startsLoading (state w, state w') \<and> invocations w' = Suc (invocations w)) \<or>
       (completes (state w, state w') \<and> invocations w' = invocations w))"
proof (cases a)
  case Load
  show ?thesis
  proof (cases "state w = IDLE \<or> state w = ERROR")
    case True
    then show ?thesis using Load consistent_load[OF assms] 
      by (auto simp: load_idle invocations_load)
  next
    case False
    then have "load w = w" by (simp add: load_def)
    then show ?thesis using Load assms by simp
  qed
next
  case (SetImage h)
  then show ?thesis using consistent_setImage[OF assms, of h] by (simp add: setImage_def)
next
  case (RasterLoad h p)
  define v where "v = w\<lparr>rasters := (rasters w)(h := (rasters w h)\<lparr>height := p\<rparr>)\<rparr>"
  have cv: "consistent v" using assms by (simp add: v_def consistent_def split: option.splits)
  have sv: "state v = state w" "trace v = trace w" "invocations v = invocations w"
    by (simp_all add: v_def invocations_def)
  have "step w a = fire h EventType_LOAD v" using RasterLoad by (simp add: v_def)
  with fire_consistent[OF cv, of h EventType_LOAD] fire_step[OF cv, of h EventType_LOAD]
  show ?thesis using sv by auto
next
  case (RasterError h)
  from fire_consistent[OF assms, of h EventType_ERROR] fire_step[OF assms, of h EventType_ERROR]
  show ?thesis using RasterError by auto
qed

lemma step_resolution:
  assumes "consistent w"
  shows "\<exists>w'. step w a = Inr w' \<and> extent w' = extent w \<and>
     (if state w \<noteq> LOADED \<and> state w' = LOADED
      then resolution w' = (case resolution w of
             None \<Rightarrow> Some (getHeight (extent w) / height (rasters w' (image' w')))
           | Some r \<Rightarrow> Some r)
      else resolution w' = resolution w)"
proof (cases a)
  case Load
  show ?thesis
  proof (cases "state w = IDLE \<or> state w = ERROR")
    case True
    have "state (load w) = LOADING" "resolution (load w) = resolution w"
      "extent (load w) = extent w"
      using True by (simp_all add: load_idle)
    then show ?thesis using Load by simp
  next
    case False
    then have "load w = w" by (simp add: load_def)
    then show ?thesis using Load by simp
  qed
next
  case (SetImage h)
  then show ?thesis by (simp add: setImage_def)
next
  case (RasterLoad h p)
  define v where "v = w\<lparr>rasters := (rasters w)(h := (rasters w h)\<lparr>height := p\<rparr>)\<rparr>"
  have cv: "consistent v" using assms by (simp add: v_def consistent_def split: option.splits)
  have sv: "state v = state w" "resolution v = resolution w" "extent v = extent w"
    by (simp_all add: v_def)
  have st: "step w a = fire h EventType_LOAD v" using RasterLoad by (simp add: v_def)
  from fire_frame[OF cv, of h EventType_LOAD] obtain w' where
    f: "fire h EventType_LOAD v = Inr w'" and fr: "extent w' = extent v" "image' w' = image' v"
      "rasters w' = rasters v"
    and d: "w' = v \<or> (state w' = LOADED \<and> state v = LOADING \<and>
             resolution w' = (case resolution v of
                None \<Rightarrow> Some (getHeight (extent v) / height (rasters v (image' v)))
              | Some r \<Rightarrow> Some r))"
    by auto
  from d show ?thesis
  proof
    assume "w' = v"
    then show ?thesis using st f sv by simp
  next
    assume "state w' = LOADED \<and> state v = LOADING \<and>
             resolution w' = (case resolution v of
                None \<Rightarrow> Some (getHeight (extent v) / height (rasters v (image' v)))
              | Some r \<Rightarrow> Some r)"
    then show ?thesis using st f sv fr by (simp split: option.splits)
  qed
next
  case (RasterError h)
  from fire_frame[OF assms, of h EventType_ERROR] obtain w' where
    f: "fire h EventType_ERROR w = Inr w'" and fr: "extent w' = extent w"
    and d: "w' = w \<or> (state w' = ERROR \<and> resolution w' = resolution w)"
    by auto
  from d show ?thesis
  proof
    assume "w' = w"
    then show ?thesis using RasterError f by simp
  next
    assume "state w' = ERROR \<and> resolution w' = resolution w"
    then show ?thesis using RasterError f fr by simp
  qed
qed

lemma exec_run: "exec w as = Inr ws \<Longrightarrow> ws \<noteq> [] \<and> hd ws = w \<and> run w as = Inr (last ws)"
  by (induction as arbitrary: w ws) (auto split: sum.splits)

lemma exec_consistent:
  assumes "consistent w"
  shows "\<exists>ws. exec w as = Inr (w # ws) \<and> list_all consistent (w # ws) \<and>
           list_all lawful (transitions (w # ws))"
  using assms
proof (induction as arbitrary: w)
  case Nil
  then show ?case by simp
next
  case (Cons a as)
  from step_consistent[OF Cons.prems, of a] obtain w' where
    s: "step w a = Inr w'" and c: "consistent w'" and l: "lawful (w, w')"
    by (auto simp: lawful_def)
  from Cons.IH[OF c] obtain ws where "exec w' as = Inr (w' # ws)"
    "list_all consistent (w' # ws)" "list_all lawful (transitions (w' # ws))" by blast
  then show ?case using s l Cons.prems by simp
qed

lemma run_consistent:
  assumes "consistent w"
  shows "\<exists>w'. run w as = Inr w' \<and> consistent w'"
proof -
  from exec_consistent[OF assms, of as] obtain ws where
    "exec w as = Inr (w # ws)" "list_all consistent (w # ws)" by blast
  with exec_run[of w as "w # ws"] show ?thesis
    by (auto simp: list_all_iff)
qed


lemma exec_resolution:
  assumes "consistent w" "extent w = e" "state w = LOADED \<or> resolution w = None"
  shows "\<exists>ws. exec w as = Inr (w # ws) \<and>
           list_all (\<lambda>(w, w'). if state w \<noteq> LOADED \<and> state w' = LOADED
              then resolution w' = Some (getHeight e / height (rasters w' (image' w')))
              else resolution w' = resolution w) (transitions (w # ws))"
  using assms
proof (induction as arbitrary: w)
  case Nil
  then show ?case by simp
next
  case (Cons a as)
  from step_consistent[OF Cons.prems(1), of a] step_resolution[OF Cons.prems(1), of a]
  obtain w' where
    s: "step w a = Inr w'" and c: "consistent w'" and e: "extent w' = e"
    and l: "if state w \<noteq> LOADED \<and> state w' = LOADED
      then resolution w' = (case resolution w of
             None \<Rightarrow> Some (getHeight (extent w) / height (rasters w' (image' w')))
           | Some r \<Rightarrow> Some r)
      else resolution w' = resolution w"
    and t: "(state w' = state w \<and> trace w' = trace w) \<or> startsLoading (state w, state w') \<or>
       completes (state w, state w')"
    using Cons.prems(2) by auto
  have l': "if state w \<noteq> LOADED \<and> state w' = LOADED
      then resolution w' = Some (getHeight e / height (rasters w' (image' w')))
      else resolution w' = resolution w"
    using l Cons.prems(2,3) by (auto split: if_splits)
  have i: "state w' = LOADED \<or> resolution w' = None"
    using l t Cons.prems(3) by (auto split: if_splits)
  from Cons.IH[OF c e i] obtain ws where "exec w' as = Inr (w' # ws)"
    "list_all (\<lambda>(w, w'). if state w \<noteq> LOADED \<and> state w' = LOADED
              then resolution w' = Some (getHeight e / height (rasters w' (image' w')))
              else resolution w' = resolution w) (transitions (w' # ws))" by blast
  then show ?case using s l' by simp
qed

lemma retry_succeeds:
  assumes "consistent w" "state w = ERROR"
  shows "\<exists>w2. step (load w) (RasterLoad (image' w) q) = Inr w2 \<and> state w2 = LOADED"
proof -
  define v where "v = (load w)\<lparr>rasters := (rasters (load w))(image' w := (rasters (load w) (image' w))\<lparr>height := q\<rparr>)\<rparr>"
  have cl: "consistent (load w)" by (rule consistent_load[OF assms(1)])
  have kl: "imageListenerKeys' (load w) = Some [errorKey (image' w), loadKey (image' w)]"
    using assms(2) by (simp add: load_idle)
  have cv: "consistent v" using cl by (simp add: v_def consistent_def split: option.splits)
  have kv: "imageListenerKeys' v = Some [errorKey (image' w), loadKey (image' w)]"
    using kl by (simp add: v_def)
  from fire_load[OF cv kv] show ?thesis
    by (simp add: v_def errorKey_def)
qed

text \<open>The fields of the example wrapper.\<close>

lemma example_state: "state exampleWrapper = IDLE" "image' exampleWrapper = 0"
  "imageListenerKeys' exampleWrapper = None" "registry exampleWrapper = []" "trace exampleWrapper = []"
  "resolution exampleWrapper = None" "extent exampleWrapper = (0, 0, 200, 100)"
  by (simp_all add: exampleWrapper_def new_ImageWrapper_def Let_def)

lemmas eval_defs = prim_defs load_def setImage_def example_state

subsection \<open>The claims about the image wrapper\<close>

text \<open>
  Claim C1. In every configuration whose state is Loading or Loaded, \<open>load()\<close> is a no-op:
  it returns the configuration unchanged, so the state, the raster handle, the key list and
  the registered listeners are the same, and the trace is the same (no "changed"
  notification is emitted).
\<close>

theorem load_noop_while_loading_or_loaded:
  assumes "state w = LOADING \<or> state w = LOADED"
  shows "load w = w \<and> state (load w) = state w \<and> image' (load w) = image' w \<and>
         imageListenerKeys' (load w) = imageListenerKeys' w \<and> registry (load w) = registry w \<and>
         trace (load w) = trace w"
  using load_noop[OF assms] by simp

text \<open>
  A second \<open>load()\<close> on the example wrapper, which the first has put in state Loading, and
  a \<open>load()\<close> on a wrapper in state Loaded.
\<close>

theorem load_noop_while_loading_or_loaded_witness:
  "state (load exampleWrapper) = LOADING \<and> load (load exampleWrapper) = load exampleWrapper \<and>
   state (exampleWrapper\<lparr>state := LOADED\<rparr>) = LOADED \<and>
   load (exampleWrapper\<lparr>state := LOADED\<rparr>) = exampleWrapper\<lparr>state := LOADED\<rparr>"
  using load_noop_while_loading_or_loaded
      [of "load exampleWrapper"] load_noop_while_loading_or_loaded[of "exampleWrapper\<lparr>state := LOADED\<rparr>"]
  by (simp add: load_idle example_state)



text \<open>
  Claim C3. In a configuration with a key list (a Loading episode), the success handler
  returns with state Loaded and the failure handler with state Error. In both cases the
  trace grows by one \<open>unlistenByKey\<close> call per key followed by the "changed" notification,
  and the listeners that notification shows as registered contain none of the keys.
\<close>

theorem completion_deregisters_before_changed:
  assumes "imageListenerKeys' w = Some ks"
  shows "(\<exists>w'. handleImageLoad' w = Inr w' \<and> state w' = LOADED \<and> imageListenerKeys' w' = None \<and>
            registry w' = filter (\<lambda>k. k \<notin> set ks) (registry w) \<and>
            set ks \<inter> set (registry w') = {} \<and>
            trace w' = trace w @ map Unlistened ks @ [Changed LOADED (registry w')]) \<and>
         (\<exists>w'. handleImageError' w = Inr w' \<and> state w' = ERROR \<and> imageListenerKeys' w' = None \<and>
            registry w' = filter (\<lambda>k. k \<notin> set ks) (registry w) \<and>
            set ks \<inter> set (registry w') = {} \<and>
            trace w' = trace w @ map Unlistened ks @ [Changed ERROR (registry w')])"
proof
  define w1 where "w1 = (if resolution w = None
      then w\<lparr>resolution := Some (getHeight (extent w) / height (rasters w (image' w)))\<rparr> else w)"
  have k1: "imageListenerKeys' (w1\<lparr>state := LOADED\<rparr>) = Some ks"
    using assms by (simp add: w1_def)
  have t1: "trace (w1\<lparr>state := LOADED\<rparr>) = trace w" "registry (w1\<lparr>state := LOADED\<rparr>) = registry w"
    by (simp_all add: w1_def)
  from unlistenImage_ok[OF k1] obtain w2 where
    w2: "unlistenImage' (w1\<lparr>state := LOADED\<rparr>) = Inr w2" "state w2 = LOADED"
      "imageListenerKeys' w2 = None" "registry w2 = filter (\<lambda>k. k \<notin> set ks) (registry w)"
      "trace w2 = trace w @ map Unlistened ks"
    using t1 by auto
  have "handleImageLoad' w = Inr (changed w2)"
    using w2(1) by (simp add: handleImageLoad'_def w1_def Let_def)
  then show "\<exists>w'. handleImageLoad' w = Inr w' \<and> state w' = LOADED \<and> imageListenerKeys' w' = None \<and>
            registry w' = filter (\<lambda>k. k \<notin> set ks) (registry w) \<and>
            set ks \<inter> set (registry w') = {} \<and>
            trace w' = trace w @ map Unlistened ks @ [Changed LOADED (registry w')]"
    using w2 by (auto simp: changed_def)
next
  have k1: "imageListenerKeys' (w\<lparr>state := ERROR\<rparr>) = Some ks"
    using assms by simp
  from unlistenImage_ok[OF k1] obtain w2 where
    w2: "unlistenImage' (w\<lparr>state := ERROR\<rparr>) = Inr w2" "state w2 = ERROR"
      "imageListenerKeys' w2 = None" "registry w2 = filter (\<lambda>k. k \<notin> set ks) (registry w)"
      "trace w2 = trace w @ map Unlistened ks"
    by auto
  have "handleImageError' w = Inr (changed w2)"
    using w2(1) by (simp add: handleImageError'_def)
  then show "\<exists>w'. handleImageError' w = Inr w' \<and> state w' = ERROR \<and> imageListenerKeys' w' = None \<and>
            registry w' = filter (\<lambda>k. k \<notin> set ks) (registry w) \<and>
            set ks \<inter> set (registry w') = {} \<and>
            trace w' = trace w @ map Unlistened ks @ [Changed ERROR (registry w')]"
    using w2 by (auto simp: changed_def)
qed

text \<open>Both handlers on the example wrapper after \<open>load()\<close>.\<close>

theorem completion_deregisters_before_changed_witness:
  "imageListenerKeys' (load exampleWrapper) = Some [errorKey 0, loadKey 0] \<and>
   (\<exists>w'. handleImageLoad' (load exampleWrapper) = Inr w' \<and> state w' = LOADED \<and>
      registry w' = [] \<and>
      trace w' = trace (load exampleWrapper) @
        [Unlistened (errorKey 0), Unlistened (loadKey 0), Changed LOADED []]) \<and>
   (\<exists>w'. handleImageError' (load exampleWrapper) = Inr w' \<and> state w' = ERROR \<and>
      registry w' = [] \<and>
      trace w' = trace (load exampleWrapper) @
        [Unlistened (errorKey 0), Unlistened (loadKey 0), Changed ERROR []])"
proof -
  have k: "imageListenerKeys' (load exampleWrapper) = Some [errorKey 0, loadKey 0]"
    by (simp add: load_idle example_state)
  have r: "registry (load exampleWrapper) = [errorKey 0, loadKey 0]"
    by (simp add: load_idle example_state)
  show ?thesis
    using completion_deregisters_before_changed[OF k] k r by auto
qed

text \<open>
  Claim C4. Along every run from a wrapper constructed with the resolution unset, the step
  that enters Loaded sets the resolution to the height of the extent divided by the pixel
  height of the raster, and no other step changes the resolution. A success handler that
  runs when the resolution is already set (a second successful completion) leaves it as
  it is.
\<close>

theorem resolution_computed_once:
  "(\<exists>ws. exec (new_ImageWrapper e None p s c f) as = Inr ws \<and>
      list_all (\<lambda>(w, w'). if state w \<noteq> LOADED \<and> state w' = LOADED
              then resolution w' = Some (getHeight e / height (rasters w' (image' w')))
              else resolution w' = resolution w) (transitions ws)) \<and>
   (imageListenerKeys' w = Some ks \<and> resolution w = Some r \<longrightarrow>
      (\<exists>w'. handleImageLoad' w = Inr w' \<and> state w' = LOADED \<and> resolution w' = Some r))"
proof (intro conjI impI)
  let ?i = "new_ImageWrapper e None p s c f"
  have "extent ?i = e" "state ?i = LOADED \<or> resolution ?i = None"
    by (simp_all add: new_ImageWrapper_def Let_def)
  from exec_resolution[OF consistent_new this]
  show "\<exists>ws. exec ?i as = Inr ws \<and>
      list_all (\<lambda>(w, w'). if state w \<noteq> LOADED \<and> state w' = LOADED
              then resolution w' = Some (getHeight e / height (rasters w' (image' w')))
              else resolution w' = resolution w) (transitions ws)"
    by blast
next
  assume a: "imageListenerKeys' w = Some ks \<and> resolution w = Some r"
  then have k: "imageListenerKeys' w = Some ks" by simp
  from handleImageLoad_resolution[OF k] a
  show "\<exists>w'. handleImageLoad' w = Inr w' \<and> state w' = LOADED \<and> resolution w' = Some r"
    by auto
qed

text \<open>
  Extent height 100 and pixel height 50 give resolution 2 and state Loaded; a further
  success with pixel height 10 keeps resolution 2.
\<close>

theorem resolution_computed_once_witness:
  "(\<exists>ws. exec exampleWrapper [Load, RasterLoad 0 50] = Inr ws \<and>
      map state ws = [IDLE, LOADING, LOADED] \<and>
      map resolution ws = [None, None, Some 2]) \<and>
   (\<exists>w'. handleImageLoad'
          ((load exampleWrapper)\<lparr>resolution := Some 2,
              rasters := (\<lambda>h. \<lparr>height = 10, crossOrigin = None\<rparr>)\<rparr>) = Inr w' \<and>
      state w' = LOADED \<and> resolution w' = Some 2)"
proof -
  let ?w2 = "(load exampleWrapper)\<lparr>resolution := Some 2,
              rasters := (\<lambda>h. \<lparr>height = 10, crossOrigin = None\<rparr>)\<rparr>"
  note t = resolution_computed_once
      [of "(0, 0, 200, 100)" "1::real" "''tile.png''" None 0 "[Load, RasterLoad 0 50]"
      ?w2 "[errorKey 0, loadKey 0]" 2, unfolded exampleWrapper_def[symmetric]]
  have k2: "imageListenerKeys' ?w2 = Some [errorKey 0, loadKey 0] \<and> resolution ?w2 = Some 2"
    by (simp add: load_idle example_state)
  have "\<exists>ws. exec exampleWrapper [Load, RasterLoad 0 50] = Inr ws \<and>
      map state ws = [IDLE, LOADING, LOADED] \<and>
      map resolution ws = [None, None, Some 2]"
    by (simp add: eval_defs)
  moreover from t[THEN conjunct2, THEN mp, OF k2] have "\<exists>w'. handleImageLoad' ?w2 = Inr w' \<and>
      state w' = LOADED \<and> resolution w' = Some 2" .
  ultimately show ?thesis by (rule conjI)
qed

text \<open>
  Claim C5 says that a fresh \<open>load()\<close> re-enters Loading from Loaded as well as from Error.
  From Loaded it does not: after a successful load of the example wrapper a further
  \<open>load()\<close> leaves the state Loaded.
\<close>

theorem loaded_does_not_reenter_loading:
  "map_sum id state (run exampleWrapper [Load, RasterLoad 0 50]) = Inr LOADED \<and>
   map_sum id state (run exampleWrapper [Load, RasterLoad 0 50, Load]) = Inr LOADED"
  by (simp add: eval_defs)

text \<open>
  Claim C5, amended. In every configuration a run from a new wrapper reaches: from state
  Error, \<open>load()\<close> re-enters Loading, and a success signal of the raster then ends in state
  Loaded; from state Loaded, \<open>load()\<close> changes nothing.
\<close>

theorem error_retries_loaded_stays:
  "\<exists>w. run (new_ImageWrapper e r p s c f) as = Inr w \<and>
       (state w = ERROR \<longrightarrow>
          state (load w) = LOADING \<and>
          (\<exists>w2. step (load w) (RasterLoad (image' w) q) = Inr w2 \<and> state w2 = LOADED)) \<and>
       (state w = LOADED \<longrightarrow> load w = w)"
proof -
  from run_consistent[OF consistent_new] obtain w where
    w: "run (new_ImageWrapper e r p s c f) as = Inr w" "consistent w" by blast
  have "state w = ERROR \<longrightarrow> state (load w) = LOADING \<and>
          (\<exists>w2. step (load w) (RasterLoad (image' w) q) = Inr w2 \<and> state w2 = LOADED)"
    using retry_succeeds[OF w(2)] by (simp add: load_idle)
  moreover have "state w = LOADED \<longrightarrow> load w = w" by (simp add: load_noop)
  ultimately show ?thesis using w(1) by blast
qed

text \<open>
  On the example wrapper: a failure, then the retry; and a success, after which \<open>load()\<close>
  changes nothing.
\<close>

theorem error_retries_loaded_stays_witness:
  "(\<exists>w. run exampleWrapper [Load, RasterError 0] = Inr w \<and> state w = ERROR \<and>
       state (load w) = LOADING \<and>
       (\<exists>w2. step (load w) (RasterLoad (image' w) 50) = Inr w2 \<and> state w2 = LOADED)) \<and>
   (\<exists>w. run exampleWrapper [Load, RasterLoad 0 50] = Inr w \<and> state w = LOADED \<and> load w = w)"
proof
  have "\<exists>w. run exampleWrapper [Load, RasterError 0] = Inr w \<and> state w = ERROR"
    by (simp add: eval_defs)
  with error_retries_loaded_stays
      [of "(0, 0, 200, 100)" None "1::real" "''tile.png''" None 0 "[Load, RasterError 0]" 50]
  show "\<exists>w. run exampleWrapper [Load, RasterError 0] = Inr w \<and> state w = ERROR \<and>
       state (load w) = LOADING \<and>
       (\<exists>w2. step (load w) (RasterLoad (image' w) 50) = Inr w2 \<and> state w2 = LOADED)"
    unfolding exampleWrapper_def[symmetric] by auto
next
  have "\<exists>w. run exampleWrapper [Load, RasterLoad 0 50] = Inr w \<and> state w = LOADED"
    by (simp add: eval_defs)
  with error_retries_loaded_stays
      [of "(0, 0, 200, 100)" None "1::real" "''tile.png''" None 0 "[Load, RasterLoad 0 50]" 50]
  show "\<exists>w. run exampleWrapper [Load, RasterLoad 0 50] = Inr w \<and> state w = LOADED \<and> load w = w"
    unfolding exampleWrapper_def[symmetric] by auto
qed

text \<open>
  Claim C6. Along every run from a newly constructed wrapper, which starts in Idle, each
  step either starts a load attempt (Idle or Error to Loading), completes one (Loading to
  Loaded or Error), or leaves the state and the trace as they are.
\<close>

theorem transitions_follow_lifecycle:
  "\<exists>ws. exec (new_ImageWrapper e r p s c f) as = Inr ws \<and> state (hd ws) = IDLE \<and>
     list_all (\<lambda>(w, w'). startsLoading (state w, state w') \<or> completes (state w, state w') \<or>
                 (state w' = state w \<and> trace w' = trace w)) (transitions ws)"
proof -
  let ?i = "new_ImageWrapper e r p s c f"
  from exec_consistent[OF consistent_new, of e r p s c f as] obtain ws where
    ex: "exec ?i as = Inr (?i # ws)" and law: "list_all lawful (transitions (?i # ws))"
    by blast
  have "state ?i = IDLE" by (simp add: new_ImageWrapper_def Let_def)
  moreover have "list_all (\<lambda>(w, w'). startsLoading (state w, state w') \<or> completes (state w, state w') \<or>
                 (state w' = state w \<and> trace w' = trace w)) (transitions (?i # ws))"
    using law by (auto simp: list_all_iff lawful_def)
  ultimately show ?thesis using ex by auto
qed

text \<open>A run with a redundant load, a failure, a retry, a success and a late load.\<close>

theorem transitions_follow_lifecycle_witness:
  "\<exists>ws. exec exampleWrapper [Load, Load, RasterError 0, Load, RasterLoad 0 50, Load] = Inr ws \<and>
     map state ws = [IDLE, LOADING, LOADING, ERROR, LOADING, LOADED, LOADED]"
  using transitions_follow_lifecycle[of "(0, 0, 200, 100)" None "1::real" "''tile.png''" None 0
      "[Load, Load, RasterError 0, Load, RasterLoad 0 50, Load]"]
  unfolding exampleWrapper_def[symmetric]
  by (auto simp: eval_defs)

text \<open>
  The load function and the source locator are those given to the constructor, all along
  a run; and what the error event of a raster does in a consistent configuration.
\<close>

lemma load_keeps_load_function:
  "src' (load w) = src' w" "imageLoadFunction' (load w) = imageLoadFunction' w"
proof -
  show "src' (load w) = src' w"
    by (cases "state w = IDLE \<or> state w = ERROR") (auto simp: load_def prim_defs)
  show "imageLoadFunction' (load w) = imageLoadFunction' w"
    by (cases "state w = IDLE \<or> state w = ERROR") (auto simp: load_def prim_defs)
qed

lemma fire_keeps_load_function:
  assumes "consistent w"
  shows "\<exists>w'. fire h ty w = Inr w' \<and> src' w' = src' w \<and>
           imageLoadFunction' w' = imageLoadFunction' w"
proof (cases "imageListenerKeys' w")
  case None
  with assms show ?thesis by (simp add: consistent_def fire_def)
next
  case (Some ks)
  with assms obtain t where reg: "registry w = [errorKey t, loadKey t]"
    and ks: "ks = [errorKey t, loadKey t]"
    by (auto simp: consistent_def)
  show ?thesis
    using Some reg ks
    by (cases ty) (auto simp: prim_defs)
qed

lemma step_keeps_load_function:
  assumes "consistent w" "step w a = Inr w'"
  shows "src' w' = src' w \<and> imageLoadFunction' w' = imageLoadFunction' w"
proof (cases a)
  case Load
  with assms(2) show ?thesis by (auto simp: load_keeps_load_function)
next
  case (SetImage h)
  with assms(2) show ?thesis by (auto simp: setImage_def)
next
  case (RasterLoad h p)
  define v where "v = w\<lparr>rasters := (rasters w)(h := (rasters w h)\<lparr>height := p\<rparr>)\<rparr>"
  have cv: "consistent v" using assms(1) by (simp add: v_def consistent_def split: option.splits)
  have sv: "src' v = src' w" "imageLoadFunction' v = imageLoadFunction' w"
    by (simp_all add: v_def)
  have "step w a = fire h EventType_LOAD v" using RasterLoad by (simp add: v_def)
  with fire_keeps_load_function[OF cv, of h EventType_LOAD] assms(2) sv
  show ?thesis by auto
next
  case (RasterError h)
  with fire_keeps_load_function[OF assms(1), of h EventType_ERROR] assms(2)
  show ?thesis by auto
qed

lemma run_keeps_load_function:
  assumes "consistent w"
  shows "\<exists>w'. run w as = Inr w' \<and> consistent w' \<and> src' w' = src' w \<and>
           imageLoadFunction' w' = imageLoadFunction' w"
  using assms
proof (induction as arbitrary: w)
  case Nil
  then show ?case by simp
next
  case (Cons a as)
  from step_consistent[OF Cons.prems, of a] obtain v where
    v: "step w a = Inr v" "consistent v" by blast
  from step_keeps_load_function[OF Cons.prems v(1)]
  have k: "src' v = src' w" "imageLoadFunction' v = imageLoadFunction' w" by simp_all
  from Cons.IH[OF v(2)] obtain w' where "run v as = Inr w'" "consistent w'"
    "src' w' = src' v" "imageLoadFunction' w' = imageLoadFunction' v" by blast
  then show ?case using v(1) k by simp
qed

lemma raster_error_step:
  assumes "consistent w"
  shows "step w (RasterError h) =
           Inr (if errorKey h \<in> set (registry w)
                then w\<lparr>state := ERROR, imageListenerKeys' := None, registry := [],
                       trace := trace w @ [Unlistened (errorKey h), Unlistened (loadKey h),
                                           Changed ERROR []]\<rparr>
                else w)"
    and "errorKey h \<in> set (registry w) \<longrightarrow> state w = LOADING"
    and "state w = LOADING \<longrightarrow> (\<exists>t. errorKey t \<in> set (registry w))"
proof -
  have "step w (RasterError h) =
           Inr (if errorKey h \<in> set (registry w)
                then w\<lparr>state := ERROR, imageListenerKeys' := None, registry := [],
                       trace := trace w @ [Unlistened (errorKey h), Unlistened (loadKey h),
                                           Changed ERROR []]\<rparr>
                else w) \<and>
        (errorKey h \<in> set (registry w) \<longrightarrow> state w = LOADING) \<and>
        (state w = LOADING \<longrightarrow> (\<exists>t. errorKey t \<in> set (registry w)))"
  proof (cases "imageListenerKeys' w")
    case None
    with assms show ?thesis by (simp add: consistent_def fire_def)
  next
    case (Some ks)
    with assms obtain t where reg: "registry w = [errorKey t, loadKey t]"
      and ks: "ks = [errorKey t, loadKey t]" and st: "state w = LOADING"
      by (auto simp: consistent_def)
    have tg: "target (hd ks) = t" using ks by (simp add: errorKey_def)
    have mem: "errorKey h \<in> set (registry w) \<longleftrightarrow> h = t"
      using reg by (auto simp: errorKey_def loadKey_def)
    show ?thesis
    proof (cases "h = t")
      case True
      with fire_error[OF assms Some] tg mem st reg show ?thesis by auto
    next
      case False
      with fire_other[OF assms Some, of h EventType_ERROR] tg mem st reg show ?thesis by auto
    qed
  qed
  then show "step w (RasterError h) =
           Inr (if errorKey h \<in> set (registry w)
                then w\<lparr>state := ERROR, imageListenerKeys' := None, registry := [],
                       trace := trace w @ [Unlistened (errorKey h), Unlistened (loadKey h),
                                           Changed ERROR []]\<rparr>
                else w)"
    and "errorKey h \<in> set (registry w) \<longrightarrow> state w = LOADING"
    and "state w = LOADING \<longrightarrow> (\<exists>t. errorKey t \<in> set (registry w))"
    by simp_all
qed

text \<open>
  Claim C7 says that \<open>load()\<close> returns normally for every input. It does not when the
  configured load function throws: \<open>load()\<close> does not catch the exception, which reaches
  its caller. On the new example wrapper with a load function that throws, \<open>load()\<close>
  raises that exception, and leaves the wrapper as \<open>load\<close> leaves it.
\<close>

theorem load_raises_what_load_function_throws:
  "loadCall throwingLoadFunctions exampleWrapper =
     Inl (Thrown ''load function failed'', load exampleWrapper)"
  by (simp add: loadCall_def throwingLoadFunctions_def example_state)

text \<open>
  Claim C7, amended. In every configuration a run from a newly constructed wrapper
  reaches (no such run throws): the failure signal of a raster returns normally; for the
  raster the wrapper listens on, which there is whenever the state is Loading, the only
  changes are the state Error, the key list and the listeners released, and the trace
  extended by the two \<open>unlistenByKey\<close> calls and the "changed" notification; for any
  other raster nothing changes. \<open>load()\<close> returns normally in state Loading or Loaded,
  where it does nothing, and in state Idle or Error when the load function given to the
  constructor returns; when that function throws, the exception reaches the caller of
  \<open>load()\<close>; either way the wrapper is then Loading.
\<close>

theorem failure_is_a_state_load_raises_only_from_load_function:
  "\<exists>w. run (new_ImageWrapper e r p s c f) as = Inr w \<and>
       step w (RasterError h) =
         Inr (if errorKey h \<in> set (registry w)
              then w\<lparr>state := ERROR, imageListenerKeys' := None, registry := [],
                     trace := trace w @ [Unlistened (errorKey h), Unlistened (loadKey h),
                                         Changed ERROR []]\<rparr>
              else w) \<and>
       (errorKey h \<in> set (registry w) \<longrightarrow> state w = LOADING) \<and>
       (state w = LOADING \<longrightarrow> (\<exists>t. errorKey t \<in> set (registry w))) \<and>
       (state w = LOADING \<or> state w = LOADED \<longrightarrow> loadCall env w = Inr w) \<and>
       (state w = IDLE \<or> state w = ERROR \<longrightarrow>
          loadCall env w = (case env f s of None \<Rightarrow> Inr (load w) | Some x \<Rightarrow> Inl (x, load w)) \<and>
          state (load w) = LOADING)"
proof -
  let ?i = "new_ImageWrapper e r p s c f"
  have i: "src' ?i = s" "imageLoadFunction' ?i = f"
    by (simp_all add: new_ImageWrapper_def Let_def)
  from run_keeps_load_function[OF consistent_new, of e r p s c f as] i obtain w where
    w: "run ?i as = Inr w" "consistent w" "src' w = s" "imageLoadFunction' w = f"
    by auto
  have "state w = LOADING \<or> state w = LOADED \<longrightarrow> loadCall env w = Inr w"
    by (auto simp: loadCall_def)
  moreover have "state w = IDLE \<or> state w = ERROR \<longrightarrow>
          loadCall env w = (case env f s of None \<Rightarrow> Inr (load w) | Some x \<Rightarrow> Inl (x, load w)) \<and>
          state (load w) = LOADING"
    using w(3,4) by (auto simp: loadCall_def load_idle)
  ultimately show ?thesis
    using w(1) raster_error_step(1)[OF w(2), of h] raster_error_step(2)[OF w(2), of h]
      raster_error_step(3)[OF w(2)]
    by blast
qed

text \<open>
  On the example wrapper after \<open>load()\<close>: the failure of its raster gives state Error, and a
  further \<open>load()\<close> returns without a call. On the new example wrapper: \<open>load()\<close> returns
  when the load function returns, and raises what the load function throws.
\<close>

theorem failure_is_a_state_load_raises_only_from_load_function_witness:
  "run exampleWrapper [Load] = Inr (load exampleWrapper) \<and>
   state (load exampleWrapper) = LOADING \<and>
   errorKey 0 \<in> set (registry (load exampleWrapper)) \<and>
   step (load exampleWrapper) (RasterError 0) =
     Inr ((load exampleWrapper)\<lparr>state := ERROR, imageListenerKeys' := None, registry := [],
            trace := trace (load exampleWrapper) @
              [Unlistened (errorKey 0), Unlistened (loadKey 0), Changed ERROR []]\<rparr>) \<and>
   loadCall returningLoadFunctions (load exampleWrapper) = Inr (load exampleWrapper) \<and>
   loadCall returningLoadFunctions exampleWrapper = Inr (load exampleWrapper) \<and>
   loadCall throwingLoadFunctions exampleWrapper =
     Inl (Thrown ''load function failed'', load exampleWrapper)"
proof -
  have r: "run exampleWrapper [Load] = Inr (load exampleWrapper)"
    and r0: "run exampleWrapper [] = Inr exampleWrapper"
    by simp_all
  have st: "state (load exampleWrapper) = LOADING"
    and reg: "errorKey 0 \<in> set (registry (load exampleWrapper))"
    by (simp_all add: load_idle example_state)
  note t = failure_is_a_state_load_raises_only_from_load_function
      [of "(0, 0, 200, 100)" None "1::real" "''tile.png''" None 0,
       unfolded exampleWrapper_def[symmetric]]
  from t[of "[Load]" 0 returningLoadFunctions] r st reg
  have a: "step (load exampleWrapper) (RasterError 0) =
     Inr ((load exampleWrapper)\<lparr>state := ERROR, imageListenerKeys' := None, registry := [],
            trace := trace (load exampleWrapper) @
              [Unlistened (errorKey 0), Unlistened (loadKey 0), Changed ERROR []]\<rparr>)"
    and b: "loadCall returningLoadFunctions (load exampleWrapper) = Inr (load exampleWrapper)"
    by auto
  from t[of "[]" 0 returningLoadFunctions] r0
  have c: "loadCall returningLoadFunctions exampleWrapper = Inr (load exampleWrapper)"
    by (auto simp: example_state returningLoadFunctions_def)
  from t[of "[]" 0 throwingLoadFunctions] r0
  have d: "loadCall throwingLoadFunctions exampleWrapper =
     Inl (Thrown ''load function failed'', load exampleWrapper)"
    by (auto simp: example_state throwingLoadFunctions_def)
  from r st reg a b c d show ?thesis by simp
qed

text \<open>
  Claim C8. \<open>setImage(h)\<close> leaves the state alone, changes no field other than the raster
  handle, and \<open>getImage()\<close> then returns \<open>h\<close>.
\<close>

theorem setImage_frame:
  "state (setImage h w) = state w \<and> (setImage h w)\<lparr>image' := image' w\<rparr> = w \<and>
   getImage (setImage h w) = h"
  by (simp add: setImage_def getImage_def)

text \<open>
  Claim C9. In every configuration a run from a newly constructed wrapper reaches, the key
  list is non-null exactly when the state is Loading; and a raster event, which is the only
  caller of the completion handlers and so of \<open>unlistenImage'\<close>, never throws the TypeError
  of a null key list.
\<close>

theorem keys_iff_loading:
  "\<exists>w. run (new_ImageWrapper e r p s c f) as = Inr w \<and>
       ((imageListenerKeys' w \<noteq> None) = (state w = LOADING)) \<and>
       (\<forall>h. \<exists>w'. step w (RasterError h) = Inr w') \<and>
       (\<forall>h q. \<exists>w'. step w (RasterLoad h q) = Inr w')"
proof -
  from run_consistent[OF consistent_new] obtain w where
    w: "run (new_ImageWrapper e r p s c f) as = Inr w" "consistent w" by blast
  have "(imageListenerKeys' w \<noteq> None) = (state w = LOADING)"
    using w(2) by (auto simp: consistent_def split: option.splits)
  moreover have "\<exists>w'. step w a = Inr w'" for a
    using step_consistent[OF w(2), of a] by blast
  ultimately show ?thesis using w(1) by blast
qed

text \<open>The example wrapper after \<open>load()\<close>: Loading, with its two keys.\<close>

theorem keys_iff_loading_witness:
  "\<exists>w. run exampleWrapper [Load] = Inr w \<and> state w = LOADING \<and>
       imageListenerKeys' w = Some [errorKey 0, loadKey 0]"
  using keys_iff_loading[of "(0, 0, 200, 100)" None "1::real" "''tile.png''" None 0 "[Load]"]
  unfolding exampleWrapper_def[symmetric]
  by (auto simp: eval_defs)

section \<open>Properties of the style binding\<close>

text \<open>
  Claim C10 says that content initialisation pushes one style to the host. It does not
  when the icon cannot be built: with no input bound, \<open>new style.Icon\<close> throws its
  AssertionError inside \<open>update()\<close>, so \<open>ngAfterContentInit\<close> raises before anything is
  pushed or subscribed.
\<close>

theorem content_init_raises_without_src_or_img:
  "ngAfterContentInit olIcon unboundComponent = Inl AssertionError"
  by (simp add: ngAfterContentInit_def update_def unboundComponent_def new_StyleComponent_def
      unboundDirective_def exampleDirective_def iconOptions_def olIcon_def)

text \<open>
  Claim C10, amended. When the content child is present and \<open>new style.Icon\<close> accepts the
  options built from its inputs, \<open>ngAfterContentInit\<close> returns normally; its effects
  are, in this order, one style with the newly built icon pushed to the host, and then the
  subscription to the emitter of the directive, so the host has received exactly one more
  style, with no input change involved. When \<open>new style.Icon\<close> throws,
  \<open>ngAfterContentInit\<close> raises that exception.
\<close>

theorem content_init_pushes_then_subscribes_when_icon_built:
  assumes "iconStyleDirective c = Some d"
  shows "(\<forall>icon. newIcon (iconOptions d) = Inr icon \<longrightarrow>
            (\<exists>c'. ngAfterContentInit newIcon c = Inr c' \<and>
               effects c' = effects c @ [SetStyle (Style icon), Subscribed CallUpdate] \<and>
               featureStyle (host c') = Some (Style icon) \<and>
               stylesReceived c' = stylesReceived c + 1 \<and>
               iconStyleDirective c' = Some (d\<lparr>onChanged := onChanged d @ [CallUpdate]\<rparr>) \<and>
               childSubscription c' = Some CallUpdate)) \<and>
         (\<forall>e. newIcon (iconOptions d) = Inl e \<longrightarrow> ngAfterContentInit newIcon c = Inl e)"
  using assms
  by (simp add: ngAfterContentInit_def update_def subscribe_def setStyle_def stylesReceived_def)

text \<open>
  A newly constructed component whose directive has \<open>src\<close> bound: after content
  initialisation the host has one style. With no input bound the initialisation raises.
\<close>

theorem content_init_pushes_then_subscribes_when_icon_built_witness:
  "olIcon (iconOptions exampleDirective) = Inr (Icon (iconOptions exampleDirective)) \<and>
   (\<exists>c'. ngAfterContentInit olIcon exampleComponent = Inr c' \<and>
      effects c' = [ConsoleLog ''instancing aol-style'',
                    SetStyle (Style (Icon (iconOptions exampleDirective))),
                    Subscribed CallUpdate] \<and>
      stylesReceived c' = 1) \<and>
   olIcon (iconOptions unboundDirective) = Inl AssertionError \<and>
   ngAfterContentInit olIcon unboundComponent = Inl AssertionError"
proof -
  have ok: "olIcon (iconOptions exampleDirective) = Inr (Icon (iconOptions exampleDirective))"
    by (simp add: olIcon_def iconOptions_def exampleDirective_def)
  have bad: "olIcon (iconOptions unboundDirective) = Inl AssertionError"
    by (simp add: olIcon_def iconOptions_def unboundDirective_def exampleDirective_def)
  have d1: "iconStyleDirective exampleComponent = Some exampleDirective"
    and d2: "iconStyleDirective unboundComponent = Some unboundDirective"
    and e1: "effects exampleComponent = [ConsoleLog ''instancing aol-style'']"
    by (simp_all add: exampleComponent_def unboundComponent_def new_StyleComponent_def)
  from content_init_pushes_then_subscribes_when_icon_built[OF d1, of olIcon] ok e1
  have a: "\<exists>c'. ngAfterContentInit olIcon exampleComponent = Inr c' \<and>
      effects c' = [ConsoleLog ''instancing aol-style'',
                    SetStyle (Style (Icon (iconOptions exampleDirective))),
                    Subscribed CallUpdate] \<and>
      stylesReceived c' = 1"
    by (auto simp: stylesReceived_def)
  from content_init_pushes_then_subscribes_when_icon_built[OF d2, of olIcon] bad
  have b: "ngAfterContentInit olIcon unboundComponent = Inl AssertionError"
    by simp
  from ok a bad b show ?thesis by simp
qed

text \<open>After that, each change of an input whose icon can be built pushes one more style.\<close>

lemma ngOnChanges_after_init:
  assumes "iconStyleDirective c = Some d" "onChanged d = []"
    "ngAfterContentInit newIcon c = Inr c'"
  shows "\<exists>c''. ngOnChanges newIcon c' = Inr c'' \<and> stylesReceived c'' = stylesReceived c' + 1"
  using assms
  by (auto simp: ngAfterContentInit_def ngOnChanges_def update_def subscribe_def setStyle_def
      stylesReceived_def iconOptions_def split: sum.splits)

end
